theory Spec2Isabelle
  imports Main "HOL-Library.AList"
begin

section \<open>Strings and path names\<close>

text \<open>
  A string is a list of code points from U+0000 to U+00FF, one per character.
  \<open>str.lower()\<close> on them: the capital letters A to Z, and the capital letters of the
  Latin-1 block U+00C0 to U+00DE (the multiplication sign U+00D7 is not a letter), go to
  the code point 32 above; every other character is left as it is.
\<close>

definition lower_char :: "char \<Rightarrow> char" where
  "lower_char c =
     (let n = (of_char c :: nat)
      in if (65 \<le> n \<and> n \<le> 90) \<or> (192 \<le> n \<and> n \<le> 222 \<and> n \<noteq> 215)
         then char_of (n + 32) else c)"

definition lower :: "string \<Rightarrow> string" where
  "lower s = map lower_char s"

text \<open>\<open>str.rfind(c)\<close>: the index of the last occurrence of \<open>c\<close>, or \<open>-1\<close>.\<close>

definition rfind :: "char \<Rightarrow> string \<Rightarrow> int" where
  "rfind c s =
     (if c \<in> set s then int (length s - 1 - length (takeWhile (\<lambda>x. x \<noteq> c) (rev s)))
      else - 1)"

text \<open>\<open>str.split(c)\<close>: the pieces between the occurrences of \<open>c\<close>.\<close>

fun split_on :: "char \<Rightarrow> string \<Rightarrow> string list" where
  "split_on c [] = [[]]"
| "split_on c (x # xs) =
     (if x = c then [] # split_on c xs
      else (case split_on c xs of [] \<Rightarrow> [[x]] | w # ws \<Rightarrow> (x # w) # ws))"

text \<open>
  \<open>pathlib.PurePosixPath(p).name\<close>: the last of the components of \<open>p\<close> that are neither
  empty nor \<open>.\<close>, or the empty string when there is none.
\<close>

definition path_name :: "string \<Rightarrow> string" where
  "path_name p =
     (case filter (\<lambda>x. x \<noteq> [] \<and> x \<noteq> ''.'') (split_on CHR ''/'' p) of
        [] \<Rightarrow> []
      | q # qs \<Rightarrow> last (q # qs))"

text \<open>
  \<open>PurePath.suffix\<close> and \<open>PurePath.stem\<close> (Python 3.8 to 3.13): with \<open>i\<close> the index of the
  last dot of the name, the suffix is \<open>name[i:]\<close> when \<open>0 < i < len(name) - 1\<close> and empty
  otherwise; the stem is the rest.
\<close>

definition suffix :: "string \<Rightarrow> string" where
  "suffix p =
     (let name = path_name p; i = rfind CHR ''.'' name
      in if 0 < i \<and> i < int (length name) - 1 then drop (nat i) name else [])"

definition stem :: "string \<Rightarrow> string" where
  "stem p =
     (let name = path_name p; i = rfind CHR ''.'' name
      in if 0 < i \<and> i < int (length name) - 1 then take (nat i) name else name)"

text \<open>The decimal digits of a counter, as the f-string \<open>f"{counter}"\<close> prints them.\<close>

definition digit :: "nat \<Rightarrow> char" where
  "digit d = ''0123456789'' ! d"

fun str_nat :: "nat \<Rightarrow> string" where
  "str_nat n = (if n < 10 then [digit n] else str_nat (n div 10) @ [digit (n mod 10)])"

declare str_nat.simps [simp del]

section \<open>Category registry\<close>

type_synonym ext_map = "(string \<times> string list) list"

text \<open>\<open>FILE_EXTENSION_MAP\<close> of \<open>file_organizer.py\<close> (the command-line tool).\<close>

definition FILE_EXTENSION_MAP :: ext_map where
  "FILE_EXTENSION_MAP =
     [(''Images'', [''.jpg'', ''.jpeg'', ''.png'', ''.gif'', ''.bmp'', ''.svg'', ''.webp'',
                    ''.ico'', ''.tiff'', ''.tif'', ''.raw'', ''.psd'', ''.ai'']),
      (''Documents'', [''.pdf'', ''.doc'', ''.docx'', ''.txt'', ''.rtf'', ''.odt'', ''.xls'',
                       ''.xlsx'', ''.ppt'', ''.pptx'', ''.csv'', ''.md'', ''.epub'']),
      (''Audio'', [''.mp3'', ''.wav'', ''.flac'', ''.aac'', ''.ogg'', ''.wma'', ''.m4a'',
                   ''.opus'', ''.aiff'']),
      (''Videos'', [''.mp4'', ''.avi'', ''.mkv'', ''.mov'', ''.wmv'', ''.flv'', ''.webm'',
                    ''.m4v'', ''.mpeg'', ''.mpg'', ''.3gp'']),
      (''Archives'', [''.zip'', ''.rar'', ''.7z'', ''.tar'', ''.gz'', ''.bz2'', ''.xz'', ''.iso'']),
      (''Code'', [''.py'', ''.js'', ''.java'', ''.c'', ''.cpp'', ''.h'', ''.cs'', ''.php'', ''.rb'',
                  ''.go'', ''.rs'', ''.swift'', ''.kt'', ''.html'', ''.css'', ''.json'', ''.xml'',
                  ''.yaml'', ''.yml'']),
      (''Executables'', [''.exe'', ''.msi'', ''.dmg'', ''.app'', ''.deb'', ''.rpm'', ''.sh'',
                         ''.bat'', ''.cmd''])]"

text \<open>\<open>FILE_EXTENSION_MAP\<close> of \<open>app.py\<close> (the web variant): no \<open>Executables\<close>.\<close>

definition APP_FILE_EXTENSION_MAP :: ext_map where
  "APP_FILE_EXTENSION_MAP =
     [(''Images'', [''.jpg'', ''.jpeg'', ''.png'', ''.gif'', ''.bmp'', ''.svg'', ''.webp'',
                    ''.ico'', ''.tiff'', ''.tif'', ''.raw'', ''.psd'', ''.ai'']),
      (''Documents'', [''.pdf'', ''.doc'', ''.docx'', ''.txt'', ''.rtf'', ''.odt'', ''.xls'',
                       ''.xlsx'', ''.ppt'', ''.pptx'', ''.csv'', ''.md'', ''.epub'']),
      (''Audio'', [''.mp3'', ''.wav'', ''.flac'', ''.aac'', ''.ogg'', ''.wma'', ''.m4a'',
                   ''.opus'', ''.aiff'']),
      (''Videos'', [''.mp4'', ''.avi'', ''.mkv'', ''.mov'', ''.wmv'', ''.flv'', ''.webm'',
                    ''.m4v'', ''.mpeg'', ''.mpg'', ''.3gp'']),
      (''Archives'', [''.zip'', ''.rar'', ''.7z'', ''.tar'', ''.gz'', ''.bz2'', ''.xz'', ''.iso'']),
      (''Code'', [''.py'', ''.js'', ''.java'', ''.c'', ''.cpp'', ''.h'', ''.cs'', ''.php'', ''.rb'',
                  ''.go'', ''.rs'', ''.swift'', ''.kt'', ''.html'', ''.css'', ''.json'', ''.xml'',
                  ''.yaml'', ''.yml''])]"

text \<open>
  The reverse mapping, built as the module does: one dictionary assignment per extension,
  in table order, a later assignment overwriting an earlier one.
\<close>

definition add_category :: "string \<times> string list \<Rightarrow> (string \<rightharpoonup> string) \<Rightarrow> (string \<rightharpoonup> string)" where
  "add_category item d =
     (case item of (category, extensions) \<Rightarrow>
        fold (\<lambda>ext d'. d'(lower ext \<mapsto> category)) extensions d)"

definition EXTENSION_TO_CATEGORY :: "ext_map \<Rightarrow> string \<rightharpoonup> string" where
  "EXTENSION_TO_CATEGORY m = fold add_category m Map.empty"

definition get_category_for_file :: "ext_map \<Rightarrow> string \<Rightarrow> string" where
  "get_category_for_file m filename =
     (let ext = lower (suffix filename)
      in case EXTENSION_TO_CATEGORY m ext of Some category \<Rightarrow> category | None \<Rightarrow> ''Others'')"

section \<open>The filesystem under the watched directory\<close>

text \<open>
  The state is the content of the watched directory: its entries in the order
  \<open>os.listdir\<close> returns them. An entry is a regular file (with its content), a directory
  (with its own entries), or a symbolic link whose target is missing; a link to an existing
  file or directory behaves as its target. A path \<open>os.path.join(watch_directory, entry)\<close>
  is represented by the base name \<open>entry\<close>, which is what \<open>os.path.basename\<close> gives back,
  and a path \<open>os.path.join(watch_directory, category, name)\<close> by the pair of \<open>category\<close>
  and \<open>name\<close>. \<open>locked\<close> lists the base names of the root entries the operating system
  refuses to move (permission denied, file in use): \<open>shutil.move\<close> raises for them.
  The watched directory itself is writable, and its own path is short enough for the
  paths below it to stay under \<open>PATH_MAX\<close>.
\<close>

datatype node = File string | Dir "(string \<times> node) list" | Link

type_synonym listing = "(string \<times> node) list"

record fsys =
  entries :: listing
  locked :: "string list"

text \<open>The exceptions that are raised and that no handler of the program catches.\<close>

datatype error = PermissionError | FileExistsError | OSError

text \<open>
  The longest name the filesystem takes, in bytes (\<open>NAME_MAX\<close> of the common Linux
  filesystems), and the number of bytes of a name in UTF-8, the encoding of file names:
  one byte below U+0080, two from there to U+00FF.
\<close>

definition NAME_MAX :: nat where
  "NAME_MAX = 255"

definition utf8_length :: "string \<Rightarrow> nat" where
  "utf8_length s = sum_list (map (\<lambda>c. if (of_char c :: nat) < 128 then 1 else 2) s)"

definition listdir :: "fsys \<Rightarrow> string list" where
  "listdir w = map fst (entries w)"

text \<open>\<open>os.path.exists\<close>, \<open>os.path.isdir\<close> and \<open>os.path.isfile\<close> follow symbolic links and
  are false on every error, so they are false on a link whose target is missing.\<close>

definition exists_root :: "fsys \<Rightarrow> string \<Rightarrow> bool" where
  "exists_root w n =
     (case map_of (entries w) n of Some (File c) \<Rightarrow> True | Some (Dir ds) \<Rightarrow> True | _ \<Rightarrow> False)"

definition isdir :: "fsys \<Rightarrow> string \<Rightarrow> bool" where
  "isdir w n = (case map_of (entries w) n of Some (Dir ds) \<Rightarrow> True | _ \<Rightarrow> False)"

definition isfile :: "fsys \<Rightarrow> string \<Rightarrow> bool" where
  "isfile w n = (case map_of (entries w) n of Some (File c) \<Rightarrow> True | _ \<Rightarrow> False)"

text \<open>
  \<open>(Path(destination_dir) / name).exists()\<close> (Python 3.8 to 3.13). \<open>Path.exists\<close> calls
  \<open>stat\<close> and turns \<open>ENOENT\<close> and \<open>ENOTDIR\<close> into \<open>False\<close>: the directory is missing or
  is not a directory, nothing has that name, or the name is a link whose target is missing.
  It re-raises every other \<open>OSError\<close>: \<open>stat\<close> fails with \<open>ENAMETOOLONG\<close> when it looks
  up, in a directory, a name longer than \<open>NAME_MAX\<close>.
\<close>

definition exists_in :: "fsys \<Rightarrow> string \<Rightarrow> string \<Rightarrow> error + bool" where
  "exists_in w d n =
     (case map_of (entries w) d of
        Some (Dir ds) \<Rightarrow>
          if NAME_MAX < utf8_length n then Inl OSError
          else Inr (case map_of ds n of
                      Some (File c) \<Rightarrow> True | Some (Dir x) \<Rightarrow> True | _ \<Rightarrow> False)
      | _ \<Rightarrow> Inr False)"

text \<open>
  \<open>os.makedirs\<close> of a folder of the watched directory: \<open>mkdir\<close> fails with \<open>EEXIST\<close>, and
  \<open>os.makedirs\<close> raises \<open>FileExistsError\<close>, when there is an entry of that name, of any
  kind.
\<close>

definition makedirs :: "fsys \<Rightarrow> string \<Rightarrow> error + fsys" where
  "makedirs w d =
     (case map_of (entries w) d of
        None \<Rightarrow> Inr (w\<lparr>entries := entries w @ [(d, Dir [])]\<rparr>)
      | Some x \<Rightarrow> Inl FileExistsError)"

text \<open>
  \<open>shutil.move(watch_directory/src, watch_directory/d/dst)\<close> for an entry \<open>src\<close> that is
  not a directory (the callers skip directories first) and a name \<open>dst\<close> for which
  \<open>exists_in\<close> has answered false: \<open>os.rename\<close> moves the file, or the link itself, and
  replaces a link of the name \<open>dst\<close> whose target is missing. \<open>None\<close> stands for the
  exception it raises: the source is missing or locked, or \<open>d\<close> is missing or is not a
  directory.
\<close>

definition move :: "fsys \<Rightarrow> string \<Rightarrow> string \<Rightarrow> string \<Rightarrow> fsys option" where
  "move w src d dst =
     (case map_of (entries w) src of
        None \<Rightarrow> None
      | Some (Dir x) \<Rightarrow> None
      | Some x \<Rightarrow>
          (case map_of (entries w) d of
             Some (Dir ds) \<Rightarrow>
               if src \<in> set (locked w) then None
               else Some (w\<lparr>entries :=
                      AList.update d (Dir (AList.update dst x ds))
                        (AList.delete src (entries w))\<rparr>)
           | _ \<Rightarrow> None))"

section \<open>Unique Namer\<close>

text \<open>The f-string \<open>f"{name}({counter}){extension}"\<close>.\<close>

definition candidate :: "string \<Rightarrow> nat \<Rightarrow> string \<Rightarrow> string" where
  "candidate name counter extension = name @ ''('' @ str_nat counter @ '')'' @ extension"

lemma str_nat_length: "10 ^ m \<le> n \<Longrightarrow> m < length (str_nat n)"
proof (induction m arbitrary: n)
  case 0
  show ?case by (subst str_nat.simps) simp
next
  case (Suc m)
  have pos: "(1::nat) \<le> 10 ^ m" by simp
  from Suc.prems have big: "10 * 10 ^ m \<le> n" by simp
  from big pos have ge: "10 \<le> n" by linarith
  from big have "10 ^ m \<le> n div 10" by simp
  from Suc.IH [OF this] ge show ?case
    by (subst str_nat.simps) simp
qed

lemma candidate_stops:
  "\<exists>j\<ge>k. exists_in w d (candidate name j extension) \<noteq> Inr True"
proof (cases "map_of (entries w) d")
  case None
  then show ?thesis by (auto simp: exists_in_def)
next
  case (Some x)
  show ?thesis
  proof (cases x)
    case (File c)
    with Some show ?thesis by (auto simp: exists_in_def)
  next
    case Link
    with Some show ?thesis by (auto simp: exists_in_def)
  next
    case (Dir ds)
    define L where "L = sum_list (map length (map fst ds))"
    define j where "j = 10 ^ L + k"
    have "L < length (str_nat j)"
      by (rule str_nat_length) (simp add: j_def)
    then have long: "L < length (candidate name j extension)"
      by (simp add: candidate_def)
    have "map_of ds (candidate name j extension) = None"
    proof (rule ccontr)
      assume "map_of ds (candidate name j extension) \<noteq> None"
      then have "candidate name j extension \<in> set (map fst ds)"
        by (simp add: map_of_eq_None_iff)
      then have "length (candidate name j extension) \<in> length ` set (map fst ds)"
        by (rule imageI)
      then have "length (candidate name j extension) \<in> set (map length (map fst ds))"
        by (simp only: set_map)
      then have "length (candidate name j extension) \<le> L"
        unfolding L_def by (simp add: member_le_sum_list)
      with long show False by simp
    qed
    with Some Dir have "exists_in w d (candidate name j extension) \<noteq> Inr True"
      by (simp add: exists_in_def)
    moreover have "k \<le> j" by (simp add: j_def)
    ultimately show ?thesis by blast
  qed
qed

text \<open>
  The \<open>while True\<close> loop of \<open>generate_unique_filename\<close>. It ends when \<open>exists()\<close> is false
  for the candidate, or raises.
\<close>

function unique_loop :: "fsys \<Rightarrow> string \<Rightarrow> string \<Rightarrow> string \<Rightarrow> nat \<Rightarrow> error + string" where
  "unique_loop w destination_dir name extension counter =
     (let new_filename = candidate name counter extension
      in case exists_in w destination_dir new_filename of
           Inl e \<Rightarrow> Inl e
         | Inr b \<Rightarrow>
             if \<not> b then Inr new_filename
             else unique_loop w destination_dir name extension (counter + 1))"
  by pat_completeness auto
termination
proof (relation "measure (\<lambda>(w, d, name, extension, k).
         (LEAST j. k \<le> j \<and> exists_in w d (candidate name j extension) \<noteq> Inr True) - k)")
  show "wf (measure (\<lambda>(w, d, name, extension, k).
         (LEAST j. k \<le> j \<and> exists_in w d (candidate name j extension) \<noteq> Inr True) - k))"
    by simp
next
  fix w d name extension x and k :: nat and b :: bool
  assume "x = candidate name k extension" and "exists_in w d x = Inr b" and "\<not> \<not> b"
  then have used: "exists_in w d (candidate name k extension) = Inr True" by simp
  let ?P = "\<lambda>k j. k \<le> j \<and> exists_in w d (candidate name j extension) \<noteq> Inr True"
  obtain j where j: "?P (k + 1) j"
    using candidate_stops [of "k + 1" w d name extension] by blast
  have next_ok: "?P (k + 1) (LEAST j. ?P (k + 1) j)"
    using j by (rule LeastI)
  have "(LEAST j. ?P k j) = (LEAST j. ?P (k + 1) j)"
  proof (rule Least_equality)
    show "?P k (LEAST j. ?P (k + 1) j)" using next_ok by simp
  next
    fix y assume y: "?P k y"
    with used have "y \<noteq> k" by auto
    with y have "?P (k + 1) y" by simp
    then show "(LEAST j. ?P (k + 1) j) \<le> y" by (rule Least_le)
  qed
  moreover from next_ok have "k + 1 \<le> (LEAST j. ?P (k + 1) j)" by simp
  ultimately have "(LEAST j. ?P (k + 1) j) - (k + 1) < (LEAST j. ?P k j) - k"
    by linarith
  then show "((w, d, name, extension, k + 1), (w, d, name, extension, k))
        \<in> measure (\<lambda>(w, d, name, extension, k).
             (LEAST j. k \<le> j \<and> exists_in w d (candidate name j extension) \<noteq> Inr True) - k)"
    by simp
qed

declare unique_loop.simps [simp del]

definition generate_unique_filename :: "fsys \<Rightarrow> string \<Rightarrow> string \<Rightarrow> error + string" where
  "generate_unique_filename w destination_dir filename =
     (case exists_in w destination_dir filename of
        Inl e \<Rightarrow> Inl e
      | Inr b \<Rightarrow>
          if \<not> b then Inr filename
          else unique_loop w destination_dir (stem filename) (suffix filename) 1)"

section \<open>Organizer (file\_organizer.py)\<close>

text \<open>The lines \<open>organize_file\<close> prints, in the order it prints them.\<close>

datatype message =
    Skipping_script string
  | Created_folder string
  | Would_move string string string
  | Moved string string string
  | Error_moving string

text \<open>\<open>os.path.basename(__file__)\<close> of the command-line tool.\<close>

definition script_name :: string where
  "script_name = ''file_organizer.py''"

definition is_script_file :: "string \<Rightarrow> string \<Rightarrow> bool" where
  "is_script_file filepath sname = (filepath = sname)"

text \<open>
  \<open>organize_file\<close> returns \<open>Inr\<close> of its Boolean result, or \<open>Inl\<close> of the exception that
  leaves it: only \<open>shutil.move\<close> is inside its \<open>try\<close>, so what \<open>os.makedirs\<close> and
  \<open>generate_unique_filename\<close> raise goes to the caller. The filesystem is returned as it
  is at that moment.
\<close>

definition organize_file :: "fsys \<Rightarrow> string \<Rightarrow> bool \<Rightarrow> (error + bool) \<times> message list \<times> fsys" where
  "organize_file w filename dry_run =
     (if is_script_file filename script_name then (Inr False, [Skipping_script filename], w)
      else if isdir w filename then (Inr False, [], w)
      else
        let category = get_category_for_file FILE_EXTENSION_MAP filename;
            destination_dir = (if category = ''Others'' then ''Others'' else category);
            missing = \<not> exists_root w destination_dir
        in case (if missing then makedirs w destination_dir else Inr w) of
             Inl e \<Rightarrow> (Inl e, [], w)
           | Inr w1 \<Rightarrow>
               let created = (if missing then [Created_folder category] else [])
               in case generate_unique_filename w1 destination_dir filename of
                    Inl e \<Rightarrow> (Inl e, created, w1)
                  | Inr unique_filename \<Rightarrow>
                      if dry_run
                      then (Inr True, created @ [Would_move filename category unique_filename], w1)
                      else (case move w1 filename destination_dir unique_filename of
                              Some w2 \<Rightarrow>
                                (Inr True, created @ [Moved filename category unique_filename], w2)
                            | None \<Rightarrow> (Inr False, created @ [Error_moving filename], w1)))"

text \<open>
  What \<open>watch_directory\<close> names: no such path, a directory that denies access
  (\<open>os.listdir\<close> and \<open>os.makedirs\<close> raise \<open>PermissionError\<close>), or a directory with its
  content.
\<close>

datatype target = Missing | Unreadable | Directory fsys

text \<open>
  One iteration of the \<open>for entry in entries\<close> loop of \<open>organize_directory\<close>. Nothing in
  \<open>organize_directory\<close> catches what \<open>organize_file\<close> raises: the loop ends there.
\<close>

definition organize_entry :: "bool \<Rightarrow> string \<Rightarrow> (error + nat) \<times> fsys \<Rightarrow> (error + nat) \<times> fsys" where
  "organize_entry dry_run entry st =
     (case fst st of
        Inl e \<Rightarrow> st
      | Inr files_organized \<Rightarrow>
          (case organize_file (snd st) entry dry_run of
             (Inl e, msgs, w') \<Rightarrow> (Inl e, w')
           | (Inr ok, msgs, w') \<Rightarrow>
               (Inr (if ok then files_organized + 1 else files_organized), w')))"

definition organize_directory :: "target \<Rightarrow> bool \<Rightarrow> (error + nat) \<times> target" where
  "organize_directory t dry_run =
     (case t of
        Missing \<Rightarrow> (Inr 0, Missing)
      | Unreadable \<Rightarrow> (Inr 0, Unreadable)
      | Directory w \<Rightarrow>
          (case fold (organize_entry dry_run) (listdir w) (Inr 0, w) of
             (files_organized, w') \<Rightarrow> (files_organized, Directory w')))"

section \<open>Organizer (app.py, the web variant)\<close>

record results =
  organized :: nat
  errors :: nat
  skipped :: nat

definition PROTECTED_DIR :: string where
  "PROTECTED_DIR = ''protected_files''"

definition startswith_dot :: "string \<Rightarrow> bool" where
  "startswith_dot f = (case f of [] \<Rightarrow> False | c # cs \<Rightarrow> c = CHR ''.'')"

text \<open>
  The folder set-up at the start of \<open>organize_all_files\<close>: \<open>os.makedirs\<close> of each folder
  that \<open>os.path.exists\<close> does not see. What \<open>os.makedirs\<close> raises ends the function; the
  folders made before stay.
\<close>

definition ensure_folder :: "string \<Rightarrow> error option \<times> fsys \<Rightarrow> error option \<times> fsys" where
  "ensure_folder category st =
     (case fst st of
        Some e \<Rightarrow> st
      | None \<Rightarrow>
          if \<not> exists_root (snd st) category
          then (case makedirs (snd st) category of
                  Inl e \<Rightarrow> (Some e, snd st)
                | Inr w' \<Rightarrow> (None, w'))
          else st)"

definition ensure_folders :: "fsys \<Rightarrow> error option \<times> fsys" where
  "ensure_folders w =
     ensure_folder ''Others'' (fold ensure_folder (map fst APP_FILE_EXTENSION_MAP) (None, w))"

text \<open>
  One iteration of the \<open>for f in os.listdir(watch_dir)\<close> loop. The call of
  \<open>generate_unique_filename\<close> is outside the \<open>try\<close>.
\<close>

definition organize_all_entry :: "string \<Rightarrow> (error + results) \<times> fsys \<Rightarrow> (error + results) \<times> fsys" where
  "organize_all_entry f st =
     (case fst st of
        Inl e \<Rightarrow> st
      | Inr r \<Rightarrow>
          let w = snd st
          in if isdir w f \<or> startswith_dot f then (Inr (r\<lparr>skipped := skipped r + 1\<rparr>), w)
             else if f = PROTECTED_DIR then (Inr (r\<lparr>skipped := skipped r + 1\<rparr>), w)
             else
               let category = get_category_for_file APP_FILE_EXTENSION_MAP f;
                   destination_dir = (if category = ''Others'' then ''Others'' else category)
               in case generate_unique_filename w destination_dir f of
                    Inl e \<Rightarrow> (Inl e, w)
                  | Inr unique_filename \<Rightarrow>
                      (case move w f destination_dir unique_filename of
                         Some w' \<Rightarrow> (Inr (r\<lparr>organized := organized r + 1\<rparr>), w')
                       | None \<Rightarrow> (Inr (r\<lparr>errors := errors r + 1\<rparr>), w)))"

definition organize_all_fs :: "fsys \<Rightarrow> (error + results) \<times> fsys" where
  "organize_all_fs w =
     (case ensure_folders w of
        (Some e, w1) \<Rightarrow> (Inl e, w1)
      | (None, w1) \<Rightarrow>
          fold organize_all_entry (listdir w1)
            (Inr \<lparr>organized = 0, errors = 0, skipped = 0\<rparr>, w1))"

text \<open>
  On a missing \<open>watch_dir\<close> the first \<open>os.makedirs\<close> creates it with the category folder; on
  a directory that denies access it raises, and nothing catches the exception.
\<close>

definition organize_all_files :: "target \<Rightarrow> (error + results) \<times> target" where
  "organize_all_files t =
     (case t of
        Missing \<Rightarrow>
          (case organize_all_fs \<lparr>entries = [], locked = []\<rparr> of (r, w') \<Rightarrow> (r, Directory w'))
      | Unreadable \<Rightarrow> (Inl PermissionError, Unreadable)
      | Directory w \<Rightarrow> (case organize_all_fs w of (r, w') \<Rightarrow> (r, Directory w')))"

section \<open>Watch Controller\<close>

text \<open>
  ProcessedSet holds paths under the watched directory, represented by their base names.
  The list of \<open>organize_file\<close> calls with their results is kept beside the state, to state
  how often a path is organized; the program itself does not store it.
\<close>

type_synonym calls = "(string \<times> (error + bool)) list"


text \<open>
  One entry of one tick of the \<open>while True\<close> loop. The first component is the exception
  that has left \<open>organize_file\<close>, if any: the loop catches \<open>KeyboardInterrupt\<close> only, so
  the session ends there.
\<close>

definition poll_entry :: "string \<Rightarrow> error option \<times> fsys \<times> string set \<times> calls \<Rightarrow>
    error option \<times> fsys \<times> string set \<times> calls" where
  "poll_entry entry st =
     (case st of
        (Some e, w, processed_files, cs) \<Rightarrow> st
      | (None, w, processed_files, cs) \<Rightarrow>
          if isfile w entry \<and> entry \<notin> processed_files
          then (case organize_file w entry False of
                  (Inl e, msgs, w') \<Rightarrow> (Some e, w', processed_files, cs @ [(entry, Inl e)])
                | (Inr ok, msgs, w') \<Rightarrow>
                    (None, w', if ok then insert entry processed_files else processed_files,
                     cs @ [(entry, Inr ok)]))
          else st)"

definition poll_tick :: "fsys \<Rightarrow> string set \<Rightarrow> error option \<times> fsys \<times> string set \<times> calls" where
  "poll_tick w processed_files = fold poll_entry (listdir w) (None, w, processed_files, [])"


text \<open>\<open>FileOrganizerHandler.on_created\<close> (the settle delay left out).\<close>

definition on_created :: "string \<Rightarrow> bool \<Rightarrow> fsys \<times> string set \<times> calls \<Rightarrow>
    error option \<times> fsys \<times> string set \<times> calls" where
  "on_created src_path is_directory st =
     (case st of (w, processed_files, cs) \<Rightarrow>
        if is_directory then (None, st)
        else if src_path \<in> processed_files then (None, st)
        else (case organize_file w src_path False of
                (Inl e, msgs, w') \<Rightarrow> (Some e, w', processed_files, cs @ [(src_path, Inl e)])
              | (Inr ok, msgs, w') \<Rightarrow>
                  (None, w', insert src_path processed_files, cs @ [(src_path, Inr ok)])))"

section \<open>Auxiliary definitions\<close>

text \<open>An extension as the tables write it: a dot, then a non-empty text with no dot.\<close>

definition is_ext :: "string \<Rightarrow> bool" where
  "is_ext e =
     (case e of [] \<Rightarrow> False
      | c # r \<Rightarrow> c = CHR ''.'' \<and> r \<noteq> [] \<and> CHR ''.'' \<notin> set r \<and> CHR ''/'' \<notin> set r)"

text \<open>
  Two characters that differ at most in case, the second being the small one: they are
  equal, or the second is one of the letters a to z (code points 97 to 122) and the first
  is its capital, 32 code points below.
\<close>

definition same_letter :: "char \<Rightarrow> char \<Rightarrow> bool" where
  "same_letter a b =
     (a = b \<or> (97 \<le> (of_char b :: nat) \<and> (of_char b :: nat) \<le> 122
                \<and> (of_char a :: nat) + 32 = of_char b))"

definition scenario :: fsys where
  "scenario =
     \<lparr>entries = [(''report.pdf'', File ''new''), (''photo.jpg'', File ''p''),
                 (''script.py'', File ''s''),
                 (''Documents'', Dir [(''report.pdf'', File ''old'')])],
      locked = []\<rparr>"

text \<open>
  The number a string of decimal digits writes, read from the left: each further digit
  multiplies what has been read by ten and adds its own value, the distance of its code
  point from that of \<open>0\<close>.
\<close>

definition digits_value :: "string \<Rightarrow> nat" where
  "digits_value ds = foldl (\<lambda>a c. 10 * a + ((of_char c :: nat) - 48)) 0 ds"

text \<open>
  The stem \<open>s\<close> and the extension \<open>x\<close> of a name \<open>f\<close> that has no slash and is not the
  single dot (no directory entry has such a name): \<open>x\<close> is the text
  from the last dot of \<open>f\<close> on when that dot is neither the first nor the last character
  of \<open>f\<close>, and is empty otherwise; \<open>s\<close> is what stands before \<open>x\<close>.
\<close>

definition cut :: "string \<Rightarrow> string \<Rightarrow> string \<Rightarrow> bool" where
  "cut f s x =
     (f = s @ x \<and> CHR ''/'' \<notin> set f \<and> f \<noteq> ''.''
      \<and> (case x of
            [] \<Rightarrow> CHR ''.'' \<notin> set (tl f) \<or> (f \<noteq> [] \<and> last f = CHR ''.'')
          | c # r \<Rightarrow> c = CHR ''.'' \<and> s \<noteq> [] \<and> r \<noteq> [] \<and> CHR ''.'' \<notin> set r))"

text \<open>\<open>os.listdir\<close> of a folder of the watched directory.\<close>

definition listdir_in :: "fsys \<Rightarrow> string \<Rightarrow> string list" where
  "listdir_in w d = (case map_of (entries w) d of Some (Dir ds) \<Rightarrow> map fst ds | _ \<Rightarrow> [])"

definition crowded :: fsys where
  "crowded =
     \<lparr>entries =
        [(''Documents'',
          Dir [(''report.pdf'', File ''a''), (''report(1).pdf'', File ''b''),
               (''report(2).pdf'', File ''c''), (''report(3).pdf'', File ''d''),
               (''report(4).pdf'', File ''e''), (''report(5).pdf'', File ''f''),
               (''report(6).pdf'', File ''g''), (''report(7).pdf'', File ''h''),
               (''report(8).pdf'', File ''i''), (''report(9).pdf'', File ''j''),
               (''report(10).pdf'', File ''k'')])],
      locked = []\<rparr>"

definition dangling :: fsys where
  "dangling = \<lparr>entries = [(''Documents'', Dir [(''report.pdf'', Link)])], locked = []\<rparr>"

definition reserved_name :: fsys where
  "reserved_name = \<lparr>entries = [(''protected_files'', File ''x'')], locked = []\<rparr>"

definition own_scripts :: fsys where
  "own_scripts =
     \<lparr>entries = [(''app.py'', File ''a''), (''file_organizer.py'', File ''f'')], locked = []\<rparr>"

section \<open>Facts about names and the registry\<close>

lemma split_on_no_sep: "c \<notin> set s \<Longrightarrow> split_on c s = [s]"
  by (induction s) auto

lemma path_name_plain: "CHR ''/'' \<notin> set s \<Longrightarrow> s \<noteq> ''.'' \<Longrightarrow> path_name s = s"
  by (cases "s = []") (simp_all add: path_name_def split_on_no_sep)

lemma path_name_dot: "path_name ''.'' = []"
  by (simp add: path_name_def)

lemma rfind_last:
  assumes "c \<notin> set e"
  shows "rfind c (s @ c # e) = int (length s)"
proof -
  have tw: "takeWhile (\<lambda>x. x \<noteq> c) (rev e) = rev e"
    using assms by (auto simp: takeWhile_eq_all_conv)
  have "takeWhile (\<lambda>x. x \<noteq> c) (rev (s @ c # e)) = rev e"
    using takeWhile_tail [of "\<lambda>x. x \<noteq> c" c "rev e" "rev s"] tw by simp
  then show ?thesis by (simp add: rfind_def)
qed

lemma suffix_stem_ext:
  assumes "s \<noteq> []" "CHR ''/'' \<notin> set s" "is_ext e"
  shows "suffix (s @ e) = e" and "stem (s @ e) = s"
proof -
  from assms(3) obtain r where e: "e = CHR ''.'' # r" and r: "r \<noteq> []"
    "CHR ''.'' \<notin> set r" "CHR ''/'' \<notin> set r"
    by (auto simp: is_ext_def split: list.splits)
  have ne: "s @ CHR ''.'' # r \<noteq> ''.''" using assms(1) by (cases s) auto
  have pn: "path_name (s @ CHR ''.'' # r) = s @ CHR ''.'' # r"
    by (rule path_name_plain) (use assms r ne in auto)
  have lt: "0 < length s" "0 < length r" using assms r by auto
  show "suffix (s @ e) = e"
    using lt by (simp add: e suffix_def pn rfind_last [OF r(2)] Let_def)
  show "stem (s @ e) = s"
    using lt by (simp add: e stem_def pn rfind_last [OF r(2)] Let_def)
qed

lemma suffix_stem_no_dot:
  assumes "CHR ''.'' \<notin> set r" "CHR ''/'' \<notin> set r"
  shows "suffix r = []" and "stem r = r"
proof -
  have ne: "r \<noteq> ''.''" using assms(1) by auto
  have pn: "path_name r = r" by (rule path_name_plain) (use assms ne in auto)
  have rf: "rfind CHR ''.'' r = - 1" using assms(1) by (simp add: rfind_def)
  show "suffix r = []" by (simp add: suffix_def pn rf Let_def)
  show "stem r = r" by (simp add: stem_def pn rf Let_def)
qed

lemma suffix_stem_leading_dot:
  assumes "CHR ''.'' \<notin> set r" "CHR ''/'' \<notin> set r" "r \<noteq> []"
  shows "suffix (CHR ''.'' # r) = []" and "stem (CHR ''.'' # r) = CHR ''.'' # r"
proof -
  have ne: "CHR ''.'' # r \<noteq> ''.''" using assms(3) by simp
  have pn: "path_name (CHR ''.'' # r) = CHR ''.'' # r"
    by (rule path_name_plain) (use assms ne in auto)
  have rf: "rfind CHR ''.'' (CHR ''.'' # r) = 0"
    using rfind_last [of "CHR ''.''" r "[]"] assms(1) by simp
  show "suffix (CHR ''.'' # r) = []" by (simp add: suffix_def pn rf Let_def)
  show "stem (CHR ''.'' # r) = CHR ''.'' # r" by (simp add: stem_def pn rf Let_def)
qed

lemma suffix_single_dot: "suffix ''.'' = []"
  by (simp add: suffix_def path_name_dot rfind_def Let_def)

lemma suffix_stem_trailing_dot:
  assumes "CHR ''/'' \<notin> set s" "s \<noteq> []"
  shows "suffix (s @ ''.'') = []" and "stem (s @ ''.'') = s @ ''.''"
proof -
  have ne: "s @ ''.'' \<noteq> ''.''" using assms(2) by simp
  have pn: "path_name (s @ ''.'') = s @ ''.''"
    by (rule path_name_plain) (use assms ne in auto)
  have rf: "rfind CHR ''.'' (s @ ''.'') = int (length s)"
    using rfind_last [of "CHR ''.''" "[]" s] by simp
  show "suffix (s @ ''.'') = []" by (simp add: suffix_def pn rf Let_def)
  show "stem (s @ ''.'') = s @ ''.''" by (simp add: stem_def pn rf Let_def)
qed

lemma of_char_lower_char:
  "(of_char (lower_char c) :: nat) =
     (if (65 \<le> (of_char c :: nat) \<and> (of_char c :: nat) \<le> 90)
         \<or> (192 \<le> (of_char c :: nat) \<and> (of_char c :: nat) \<le> 222 \<and> (of_char c :: nat) \<noteq> 215)
      then of_char c + 32 else of_char c)"
  by (auto simp: lower_char_def Let_def take_bit_eq_mod)

lemma char_eqI: "(of_char a :: nat) = of_char b \<Longrightarrow> a = b"
  by (simp only: of_char_eq_iff)

lemma lower_char_same_letter:
  assumes "(of_char (lower_char a) :: nat) < 128"
  shows "same_letter a (lower_char a)"
proof (cases "65 \<le> (of_char a :: nat) \<and> (of_char a :: nat) \<le> 90")
  case True
  then show ?thesis by (simp add: same_letter_def of_char_lower_char)
next
  case False
  with assms have "(of_char (lower_char a) :: nat) = of_char a"
    by (simp add: of_char_lower_char split: if_splits)
  then have "lower_char a = a" by (rule char_eqI)
  then show ?thesis by (simp add: same_letter_def)
qed

lemma same_letter_lower_char:
  assumes "same_letter a b" "lower_char b = b"
  shows "lower_char a = b"
proof (cases "a = b")
  case True
  with assms(2) show ?thesis by simp
next
  case False
  with assms(1) have r: "97 \<le> (of_char b :: nat)" "(of_char b :: nat) \<le> 122"
    "(of_char a :: nat) + 32 = of_char b"
    by (simp_all add: same_letter_def)
  then have "(of_char (lower_char a) :: nat) = of_char b"
    by (simp add: of_char_lower_char)
  then show ?thesis by (rule char_eqI)
qed

lemma same_letter_lower:
  "list_all2 same_letter x e \<Longrightarrow> lower e = e \<Longrightarrow> lower x = e"
proof (induction rule: list_all2_induct)
  case Nil
  show ?case by (simp add: lower_def)
next
  case (Cons a x b e)
  from Cons.prems have "lower_char b = b" "lower e = e" by (simp_all add: lower_def)
  with Cons.hyps(1) Cons.IH show ?case
    by (simp add: lower_def same_letter_lower_char)
qed

lemma lower_same_letter:
  "\<forall>c \<in> set (lower x). (of_char c :: nat) < 128 \<Longrightarrow> list_all2 same_letter x (lower x)"
  by (induction x) (simp_all add: lower_def lower_char_same_letter)

lemma add_category_apply:
  "add_category (c, exts) d k = (if k \<in> lower ` set exts then Some c else d k)"
  unfolding add_category_def prod.case
  by (induction exts arbitrary: d) auto

lemma table_miss:
  "k \<notin> lower ` set (concat (map snd m)) \<Longrightarrow> fold add_category m d k = d k"
proof (induction m arbitrary: d)
  case Nil
  show ?case by simp
next
  case (Cons p m)
  obtain c exts where p: "p = (c, exts)" by (cases p)
  from Cons.prems have a: "k \<notin> lower ` set exts"
    and b: "k \<notin> lower ` set (concat (map snd m))" by (auto simp: p)
  show ?case using Cons.IH [OF b] a by (simp add: p add_category_apply)
qed

lemma EXTENSION_TO_CATEGORY_miss:
  "k \<notin> lower ` set (concat (map snd m)) \<Longrightarrow> EXTENSION_TO_CATEGORY m k = None"
  by (simp add: EXTENSION_TO_CATEGORY_def table_miss)

lemma registry_table:
  "\<forall>(c, exts) \<in> set FILE_EXTENSION_MAP. \<forall>e \<in> set exts.
     EXTENSION_TO_CATEGORY FILE_EXTENSION_MAP e = Some c \<and> lower e = e
       \<and> (\<forall>ch \<in> set e. (of_char ch :: nat) < 128)"
  by code_simp

lemma registry_entry:
  assumes "(c, exts) \<in> set FILE_EXTENSION_MAP" "e \<in> set exts"
  shows "EXTENSION_TO_CATEGORY FILE_EXTENSION_MAP e = Some c \<and> lower e = e
       \<and> (\<forall>ch \<in> set e. (of_char ch :: nat) < 128)"
  using bspec [OF bspec [OF registry_table assms(1), unfolded prod.case] assms(2)] .

lemma registry_empty: "EXTENSION_TO_CATEGORY FILE_EXTENSION_MAP [] = None"
  by code_simp

lemma registry_known:
  assumes "(c, exts) \<in> set FILE_EXTENSION_MAP" "e \<in> set exts"
    "list_all2 same_letter (CHR ''.'' # r) e"
    "s \<noteq> []" "r \<noteq> []" "CHR ''.'' \<notin> set r" "CHR ''/'' \<notin> set s" "CHR ''/'' \<notin> set r"
  shows "get_category_for_file FILE_EXTENSION_MAP (s @ CHR ''.'' # r) = c"
proof -
  note t = registry_entry [OF assms(1,2)]
  from t have "lower e = e" by simp
  with assms(3) have l: "lower (CHR ''.'' # r) = e" by (rule same_letter_lower)
  have "is_ext (CHR ''.'' # r)" using assms(5,6,8) by (simp add: is_ext_def)
  then have "suffix (s @ CHR ''.'' # r) = CHR ''.'' # r"
    using assms(4,7) by (simp add: suffix_stem_ext)
  then show ?thesis using t l by (simp add: get_category_for_file_def)
qed

lemma registry_unknown:
  assumes "\<forall>(c, exts) \<in> set FILE_EXTENSION_MAP. \<forall>e \<in> set exts. \<not> list_all2 same_letter x e"
  shows "EXTENSION_TO_CATEGORY FILE_EXTENSION_MAP (lower x) = None"
proof (rule EXTENSION_TO_CATEGORY_miss, rule notI)
  assume "lower x \<in> lower ` set (concat (map snd FILE_EXTENSION_MAP))"
  then obtain p e where p: "p \<in> set FILE_EXTENSION_MAP" "e \<in> set (snd p)" "lower x = lower e"
    by auto
  note t = registry_entry [of "fst p" "snd p" e]
  from p t have e: "lower x = e" "\<forall>ch \<in> set e. (of_char ch :: nat) < 128" by simp_all
  then have "list_all2 same_letter x (lower x)" by (intro lower_same_letter) simp
  then have "list_all2 same_letter x e" by (simp only: e(1))
  moreover from assms p(1,2) have "\<not> list_all2 same_letter x e" by (cases p) auto
  ultimately show False by simp
qed

lemma registry_no_suffix:
  assumes "suffix f = []"
  shows "get_category_for_file FILE_EXTENSION_MAP f = ''Others''"
  using assms by (simp add: get_category_for_file_def lower_def registry_empty)

text \<open>
  C8, as stated: a name whose text after the last dot is a known extension gets that
  extension's category. The name \<open>.mp3\<close> ends in the known extension \<open>.mp3\<close> of Audio, and
  its category is Others: \<open>Path.suffix\<close> is empty when the only dot is the first character.
\<close>

theorem leading_dot_counterexample:
  "(''Audio'', [''.mp3'', ''.wav'', ''.flac'', ''.aac'', ''.ogg'', ''.wma'', ''.m4a'',
                ''.opus'', ''.aiff'']) \<in> set FILE_EXTENSION_MAP
   \<and> get_category_for_file FILE_EXTENSION_MAP ''.mp3'' = ''Others''
   \<and> get_category_for_file FILE_EXTENSION_MAP ''.mp3'' \<noteq> ''Audio''"
  by code_simp

text \<open>
  C8, amended. Take a name without a slash, made of characters up to U+00FF, and cut it
  at its last dot into \<open>s\<close>, the dot and \<open>r\<close>. When neither \<open>s\<close> nor \<open>r\<close> is empty, the
  category is the one the table gives for the extension that \<open>.r\<close> spells, whatever the
  case of its letters, and Others when \<open>.r\<close> spells no extension of the table. When the
  last dot is the first character of the name, or the last one, or the name has no dot,
  the category is Others. The function has a value on every string and raises nothing.
\<close>

theorem get_category_for_file_last_dot:
  "CHR ''/'' \<notin> set s \<and> CHR ''/'' \<notin> set r \<and> CHR ''.'' \<notin> set r \<longrightarrow>
     (s \<noteq> [] \<and> r \<noteq> [] \<longrightarrow>
        (\<forall>c exts e. (c, exts) \<in> set FILE_EXTENSION_MAP \<and> e \<in> set exts
             \<and> list_all2 same_letter (CHR ''.'' # r) e \<longrightarrow>
           get_category_for_file FILE_EXTENSION_MAP (s @ CHR ''.'' # r) = c)
        \<and> ((\<forall>(c, exts) \<in> set FILE_EXTENSION_MAP. \<forall>e \<in> set exts.
               \<not> list_all2 same_letter (CHR ''.'' # r) e) \<longrightarrow>
           get_category_for_file FILE_EXTENSION_MAP (s @ CHR ''.'' # r) = ''Others''))
     \<and> get_category_for_file FILE_EXTENSION_MAP (CHR ''.'' # r) = ''Others''
     \<and> get_category_for_file FILE_EXTENSION_MAP (s @ ''.'') = ''Others''
     \<and> get_category_for_file FILE_EXTENSION_MAP r = ''Others''"
proof (intro impI, elim conjE)
  assume ns: "CHR ''/'' \<notin> set s" and nr: "CHR ''/'' \<notin> set r" and dr: "CHR ''.'' \<notin> set r"
  have a: "get_category_for_file FILE_EXTENSION_MAP (s @ CHR ''.'' # r) = c"
    if "s \<noteq> []" "r \<noteq> []" "(c, exts) \<in> set FILE_EXTENSION_MAP \<and> e \<in> set exts
             \<and> list_all2 same_letter (CHR ''.'' # r) e" for c exts e
    using registry_known [of c exts e r s] that ns nr dr by blast
  have b: "get_category_for_file FILE_EXTENSION_MAP (s @ CHR ''.'' # r) = ''Others''"
    if "s \<noteq> []" "r \<noteq> []" "\<forall>(c, exts) \<in> set FILE_EXTENSION_MAP. \<forall>e \<in> set exts.
               \<not> list_all2 same_letter (CHR ''.'' # r) e"
  proof -
    have "is_ext (CHR ''.'' # r)" using that(2) dr nr by (simp add: is_ext_def)
    then have "suffix (s @ CHR ''.'' # r) = CHR ''.'' # r"
      using that(1) ns by (simp add: suffix_stem_ext)
    then show ?thesis
      using registry_unknown [OF that(3)] by (simp add: get_category_for_file_def)
  qed
  have c: "get_category_for_file FILE_EXTENSION_MAP (CHR ''.'' # r) = ''Others''"
  proof (cases "r = []")
    case True
    then show ?thesis by (simp add: registry_no_suffix suffix_single_dot)
  next
    case False
    then show ?thesis using dr nr by (simp add: registry_no_suffix suffix_stem_leading_dot)
  qed
  have d: "get_category_for_file FILE_EXTENSION_MAP (s @ ''.'') = ''Others''"
  proof (cases "s = []")
    case True
    then show ?thesis by (simp add: registry_no_suffix suffix_single_dot)
  next
    case False
    then show ?thesis using ns by (simp add: registry_no_suffix suffix_stem_trailing_dot)
  qed
  have e: "get_category_for_file FILE_EXTENSION_MAP r = ''Others''"
    using dr nr by (simp add: registry_no_suffix suffix_stem_no_dot)
  show "(s \<noteq> [] \<and> r \<noteq> [] \<longrightarrow>
        (\<forall>c exts e. (c, exts) \<in> set FILE_EXTENSION_MAP \<and> e \<in> set exts
             \<and> list_all2 same_letter (CHR ''.'' # r) e \<longrightarrow>
           get_category_for_file FILE_EXTENSION_MAP (s @ CHR ''.'' # r) = c)
        \<and> ((\<forall>(c, exts) \<in> set FILE_EXTENSION_MAP. \<forall>e \<in> set exts.
               \<not> list_all2 same_letter (CHR ''.'' # r) e) \<longrightarrow>
           get_category_for_file FILE_EXTENSION_MAP (s @ CHR ''.'' # r) = ''Others''))
     \<and> get_category_for_file FILE_EXTENSION_MAP (CHR ''.'' # r) = ''Others''
     \<and> get_category_for_file FILE_EXTENSION_MAP (s @ ''.'') = ''Others''
     \<and> get_category_for_file FILE_EXTENSION_MAP r = ''Others''"
    using a b c d e by blast
qed

theorem get_category_for_file_last_dot_witness:
  "(''Audio'', [''.mp3'', ''.wav'', ''.flac'', ''.aac'', ''.ogg'', ''.wma'', ''.m4a'',
                ''.opus'', ''.aiff'']) \<in> set FILE_EXTENSION_MAP
   \<and> list_all2 same_letter ''.Mp3'' ''.mp3''
   \<and> get_category_for_file FILE_EXTENSION_MAP ''New.Mp3'' = ''Audio''
   \<and> list_all (\<lambda>(c, exts). list_all (\<lambda>e. \<not> list_all2 same_letter ''.Xyz'' e) exts)
         FILE_EXTENSION_MAP
   \<and> get_category_for_file FILE_EXTENSION_MAP ''notes.Xyz'' = ''Others''
   \<and> get_category_for_file FILE_EXTENSION_MAP ''.Mp3'' = ''Others''
   \<and> get_category_for_file FILE_EXTENSION_MAP ''New.'' = ''Others''
   \<and> get_category_for_file FILE_EXTENSION_MAP ''Mp3'' = ''Others''"
proof -
  let ?au = "[''.mp3'', ''.wav'', ''.flac'', ''.aac'', ''.ogg'', ''.wma'', ''.m4a'',
              ''.opus'', ''.aiff'']"
  have m: "(''Audio'', ?au) \<in> set FILE_EXTENSION_MAP"
    by (simp add: FILE_EXTENSION_MAP_def)
  have l: "list_all2 same_letter ''.Mp3'' ''.mp3''" by (simp add: same_letter_def)
  have u': "list_all (\<lambda>(c, exts). list_all (\<lambda>e. \<not> list_all2 same_letter ''.Xyz'' e) exts)
         FILE_EXTENSION_MAP"
    by code_simp
  then have u: "\<forall>(c, exts) \<in> set FILE_EXTENSION_MAP. \<forall>e \<in> set exts.
         \<not> list_all2 same_letter ''.Xyz'' e"
    by (simp add: list_all_iff case_prod_beta)
  have t1: "CHR ''/'' \<notin> set ''New'' \<and> CHR ''/'' \<notin> set ''Mp3'' \<and> CHR ''.'' \<notin> set ''Mp3''"
    by simp
  have t2: "CHR ''/'' \<notin> set ''notes'' \<and> CHR ''/'' \<notin> set ''Xyz'' \<and> CHR ''.'' \<notin> set ''Xyz''"
    by simp
  note w1 = get_category_for_file_last_dot [of "''New''" "''Mp3''", rule_format, OF t1]
  note w2 = get_category_for_file_last_dot [of "''notes''" "''Xyz''", rule_format, OF t2]
  have "get_category_for_file FILE_EXTENSION_MAP (''New'' @ CHR ''.'' # ''Mp3'') = ''Audio''"
    by (rule w1 [THEN conjunct1, rule_format, THEN conjunct1, rule_format,
          of "''Audio''" ?au "''.mp3''"]) (simp_all only: m l, simp_all)
  then have a: "get_category_for_file FILE_EXTENSION_MAP ''New.Mp3'' = ''Audio''"
    by simp
  have "get_category_for_file FILE_EXTENSION_MAP (''notes'' @ CHR ''.'' # ''Xyz'') = ''Others''"
    by (rule w2 [THEN conjunct1, THEN mp, THEN conjunct2, THEN mp, OF _ u]) simp
  then have b: "get_category_for_file FILE_EXTENSION_MAP ''notes.Xyz'' = ''Others''"
    by simp
  have c1: "get_category_for_file FILE_EXTENSION_MAP (CHR ''.'' # ''Mp3'') = ''Others''"
    by (rule w1 [THEN conjunct2, THEN conjunct1])
  have "get_category_for_file FILE_EXTENSION_MAP (''New'' @ ''.'') = ''Others''"
    by (rule w1 [THEN conjunct2, THEN conjunct2, THEN conjunct1])
  then have c2: "get_category_for_file FILE_EXTENSION_MAP ''New.'' = ''Others''"
    by simp
  have c3: "get_category_for_file FILE_EXTENSION_MAP ''Mp3'' = ''Others''"
    by (rule w1 [THEN conjunct2, THEN conjunct2, THEN conjunct2])
  note c = c1 c2 c3
  show ?thesis using m l a u' b c by (intro conjI)
qed

section \<open>Scenario: three files and an existing Documents/report.pdf\<close>

text \<open>
  C5, as stated: the full pass over the scenario returns organized 2, errors 0, skipped 0.
  The web pass returns other counts: the relocated report.pdf is organized too, and the
  seven category folders are skipped entries.
\<close>

theorem scenario_counts_counterexample:
  "fst (organize_all_files (Directory scenario))
     \<noteq> Inr \<lparr>organized = 2, errors = 0, skipped = 0\<rparr>"
  by code_simp

text \<open>
  C5, amended: on the scenario the web pass returns organized 3, errors 0, skipped 7 and the
  command-line pass returns 3; both move photo.jpg to Images and script.py to Code, and
  relocate report.pdf to Documents/report(1).pdf beside the file that was there.
\<close>

theorem scenario_full_pass:
  "organize_all_files (Directory scenario) =
     (Inr \<lparr>organized = 3, errors = 0, skipped = 7\<rparr>,
      Directory
        \<lparr>entries =
           [(''Documents'', Dir [(''report.pdf'', File ''old''),
                                 (''report(1).pdf'', File ''new'')]),
            (''Images'', Dir [(''photo.jpg'', File ''p'')]),
            (''Audio'', Dir []), (''Videos'', Dir []), (''Archives'', Dir []),
            (''Code'', Dir [(''script.py'', File ''s'')]),
            (''Others'', Dir [])],
         locked = []\<rparr>)
   \<and> organize_directory (Directory scenario) False =
       (Inr 3,
        Directory
          \<lparr>entries =
             [(''Documents'', Dir [(''report.pdf'', File ''old''),
                                   (''report(1).pdf'', File ''new'')]),
              (''Images'', Dir [(''photo.jpg'', File ''p'')]),
              (''Code'', Dir [(''script.py'', File ''s'')])],
           locked = []\<rparr>)"
  by code_simp

section \<open>Dry run\<close>

text \<open>
  C2 at a failing input: a dry run over the scenario reports three moves and leaves the
  three files where they are, but it has created the folders Images and Code, which did
  not exist before the call.
\<close>

theorem dry_run_creates_folders:
  "organize_directory (Directory scenario) True =
     (Inr 3,
      Directory
        \<lparr>entries =
           [(''report.pdf'', File ''new''), (''photo.jpg'', File ''p''),
            (''script.py'', File ''s''),
            (''Documents'', Dir [(''report.pdf'', File ''old'')]),
            (''Images'', Dir []), (''Code'', Dir [])],
         locked = []\<rparr>)
   \<and> snd (organize_directory (Directory scenario) True) \<noteq> Directory scenario"
  by code_simp

section \<open>Unique Namer: the first candidate that is not there\<close>

lemma cut_stem_suffix:
  assumes "cut f s x"
  shows "stem f = s" and "suffix f = x"
proof -
  from assms have f: "f = s @ x" and nsl: "CHR ''/'' \<notin> set f" and nd1: "f \<noteq> ''.''"
    unfolding cut_def by blast+
  have "stem f = s \<and> suffix f = x"
  proof (cases x)
    case Nil
    with assms have c: "CHR ''.'' \<notin> set (tl f) \<or> (f \<noteq> [] \<and> last f = CHR ''.'')"
      unfolding cut_def by (simp only: list.case) blast
    have fs: "f = s" using f Nil by simp
    show ?thesis
    proof (cases "f \<noteq> [] \<and> last f = CHR ''.''")
      case True
      then have fb: "f = butlast f @ ''.''" using append_butlast_last_id [of f] by simp
      have nb: "CHR ''/'' \<notin> set (butlast f)" using nsl by (auto dest: in_set_butlastD)
      show ?thesis
      proof (cases "butlast f = []")
        case True
        with fb have "f = ''.''" by simp
        with nd1 show ?thesis by simp
      next
        case False
        from suffix_stem_trailing_dot [OF nb False] fb fs Nil show ?thesis by simp
      qed
    next
      case False
      with c have nd: "CHR ''.'' \<notin> set (tl f)" by blast
      show ?thesis
      proof (cases f)
        case Nil
        then show ?thesis using fs \<open>x = []\<close> suffix_stem_no_dot [of "[]"] by simp
      next
        case (Cons a t)
        show ?thesis
        proof (cases "a = CHR ''.''")
          case True
          show ?thesis
          proof (cases "t = []")
            case True
            with \<open>a = CHR ''.''\<close> Cons False show ?thesis by simp
          next
            case False
            from suffix_stem_leading_dot [of t] nd nsl Cons True False fs \<open>x = []\<close>
            show ?thesis by simp
          qed
        next
          case False
          with nd Cons have "CHR ''.'' \<notin> set f" by simp
          from suffix_stem_no_dot [OF this nsl] fs \<open>x = []\<close> show ?thesis by simp
        qed
      qed
    qed
  next
    case (Cons c r)
    with assms have e: "is_ext x" "s \<noteq> []" using nsl f
      by (auto simp: cut_def is_ext_def)
    have "CHR ''/'' \<notin> set s" using nsl f by simp
    from suffix_stem_ext [OF e(2) this e(1)] f show ?thesis by simp
  qed
  then show "stem f = s" and "suffix f = x" by simp_all
qed

lemma digit_code: "d < 10 \<Longrightarrow> (of_char (digit d) :: nat) = 48 + d"
proof -
  assume "d < 10"
  then have "d = 0 \<or> d = 1 \<or> d = 2 \<or> d = 3 \<or> d = 4 \<or> d = 5 \<or> d = 6 \<or> d = 7 \<or> d = 8 \<or> d = 9"
    by arith
  then show ?thesis by (elim disjE) (simp_all add: digit_def)
qed

lemma digit_in: "d < 10 \<Longrightarrow> digit d \<in> set ''0123456789''"
  unfolding digit_def by (rule nth_mem) simp

lemma digits_value_snoc:
  "digits_value (ds @ [c]) = 10 * digits_value ds + ((of_char c :: nat) - 48)"
  by (simp add: digits_value_def)

lemma str_nat_decimal:
  "str_nat k \<noteq> [] \<and> set (str_nat k) \<subseteq> set ''0123456789''
   \<and> (hd (str_nat k) = CHR ''0'' \<longrightarrow> k = 0) \<and> digits_value (str_nat k) = k"
proof (induction k rule: str_nat.induct)
  case (1 n)
  show ?case
  proof (cases "n < 10")
    case True
    then have s: "str_nat n = [digit n]" by (subst str_nat.simps) simp
    have z: "digit n = CHR ''0'' \<longrightarrow> n = 0"
    proof
      assume "digit n = CHR ''0''"
      then have "(of_char (digit n) :: nat) = 48" by simp
      with digit_code [OF True] show "n = 0" by simp
    qed
    have v: "digits_value [digit n] = n"
      using digit_code [OF True] by (simp add: digits_value_def)
    show ?thesis using digit_in [OF True] z v by (simp add: s)
  next
    case False
    then have s: "str_nat n = str_nat (n div 10) @ [digit (n mod 10)]"
      by (subst str_nat.simps) simp
    note ih = "1.IH" [OF False]
    have m: "n mod 10 < 10" by simp
    have h: "hd (str_nat n) = hd (str_nat (n div 10))" using ih by (simp add: s)
    have nz: "n div 10 \<noteq> 0" using False by simp
    have v: "digits_value (str_nat n) = n"
      using ih digit_code [OF m] by (simp add: s digits_value_snoc)
    show ?thesis using ih digit_in [OF m] h nz v by (simp add: s)
  qed
qed

lemma unique_loop_skip:
  assumes "counter \<le> m"
    and "\<forall>k. counter \<le> k \<and> k < m \<longrightarrow> exists_in w d (candidate name k extension) = Inr True"
  shows "unique_loop w d name extension counter = unique_loop w d name extension m"
  using assms
proof (induction "m - counter" arbitrary: counter)
  case 0
  then show ?case by simp
next
  case (Suc n)
  then have lt: "counter < m" by simp
  with Suc.prems(2) have used: "exists_in w d (candidate name counter extension) = Inr True"
    by simp
  have "unique_loop w d name extension (counter + 1) = unique_loop w d name extension m"
  proof (rule Suc.hyps(1))
    show "n = m - (counter + 1)" using Suc.hyps(2) by simp
    show "counter + 1 \<le> m" using lt by simp
    show "\<forall>k. counter + 1 \<le> k \<and> k < m \<longrightarrow>
        exists_in w d (candidate name k extension) = Inr True"
      using Suc.prems(2) by simp
  qed
  with used show ?case by (subst unique_loop.simps) (simp add: Let_def)
qed

lemma unique_loop_absent:
  "unique_loop w d name extension counter = Inr g \<Longrightarrow> exists_in w d g = Inr False"
proof (induction w d name extension counter rule: unique_loop.induct)
  case (1 w d name extension counter)
  show ?case
  proof (cases "exists_in w d (candidate name counter extension)")
    case (Inl e)
    with "1.prems" show ?thesis by (subst (asm) unique_loop.simps) (simp add: Let_def)
  next
    case (Inr b)
    show ?thesis
    proof (cases b)
      case True
      from "1.prems" have "unique_loop w d name extension (counter + 1) = Inr g"
        by (subst (asm) unique_loop.simps) (simp add: Let_def Inr True)
      from "1.IH" [OF refl Inr _ this] True show ?thesis by simp
    next
      case False
      from "1.prems" have "g = candidate name counter extension"
        by (subst (asm) unique_loop.simps) (simp add: Let_def Inr False)
      with Inr False show ?thesis by simp
    qed
  qed
qed

lemma generate_after_present:
  assumes "cut f s x" "exists_in w d f = Inr True"
    "\<forall>k. 1 \<le> k \<and> k \<le> n \<longrightarrow> exists_in w d (s @ ''('' @ str_nat k @ '')'' @ x) = Inr True"
  shows "generate_unique_filename w d f =
     (case exists_in w d (s @ ''('' @ str_nat (n + 1) @ '')'' @ x) of
        Inl e \<Rightarrow> Inl e
      | Inr b \<Rightarrow> if \<not> b then Inr (s @ ''('' @ str_nat (n + 1) @ '')'' @ x)
                 else unique_loop w d s x (n + 2))"
proof -
  have sk: "unique_loop w d s x 1 = unique_loop w d s x (n + 1)"
    by (rule unique_loop_skip) (use assms(3) in \<open>auto simp: candidate_def\<close>)
  have "generate_unique_filename w d f = unique_loop w d s x 1"
    using assms(2) cut_stem_suffix [OF assms(1)] by (simp add: generate_unique_filename_def)
  also have "\<dots> = unique_loop w d s x (n + 1)" by (rule sk)
  also have "\<dots> = (case exists_in w d (s @ ''('' @ str_nat (n + 1) @ '')'' @ x) of
        Inl e \<Rightarrow> Inl e
      | Inr b \<Rightarrow> if \<not> b then Inr (s @ ''('' @ str_nat (n + 1) @ '')'' @ x)
                 else unique_loop w d s x (n + 2))"
    by (subst unique_loop.simps) (simp add: Let_def candidate_def split: sum.splits)
  finally show ?thesis .
qed

text \<open>
  C7, as stated: the name comes back unchanged only when no entry of that name is in the
  destination. The folder Documents holds an entry \<open>report.pdf\<close>, a symbolic link whose
  target is missing, and the name comes back unchanged: \<open>Path.exists\<close> follows the link
  and answers false.
\<close>

theorem dangling_link_counterexample:
  "''report.pdf'' \<in> set (listdir_in dangling ''Documents'')
   \<and> generate_unique_filename dangling ''Documents'' ''report.pdf'' = Inr ''report.pdf''
   \<and> generate_unique_filename dangling ''Documents'' ''report.pdf'' \<noteq> Inr ''report(1).pdf''"
  by code_simp

text \<open>
  C7, amended. The counter is printed as its decimal numeral: digits only, no leading
  zero, of the value of the counter. What \<open>Path.exists\<close> raises for the name leaves the
  function; when it answers false for the name (nothing there, or a link whose target is
  missing), the name comes back unchanged. Otherwise, with \<open>s\<close> the stem and \<open>x\<close> the
  extension of the name, when \<open>Path.exists\<close> answers true for the candidates \<open>s(1)x\<close> to
  \<open>s(n)x\<close>, the result is \<open>s(n+1)x\<close> if it answers false for that candidate, and the
  exception if it raises one for it (the candidate is longer than the filesystem takes).
  A name that comes back is one for which \<open>Path.exists\<close> answers false. The loop ends on
  every directory, as the termination proof of \<open>unique_loop\<close> shows.
\<close>

theorem generate_unique_filename_first_absent:
  "(\<forall>k. str_nat k \<noteq> [] \<and> set (str_nat k) \<subseteq> set ''0123456789''
        \<and> (hd (str_nat k) = CHR ''0'' \<longrightarrow> k = 0) \<and> digits_value (str_nat k) = k)
   \<and> (\<forall>e. exists_in w d f = Inl e \<longrightarrow> generate_unique_filename w d f = Inl e)
   \<and> (exists_in w d f = Inr False \<longrightarrow> generate_unique_filename w d f = Inr f)
   \<and> (\<forall>s x n. cut f s x \<and> exists_in w d f = Inr True
          \<and> (\<forall>k. 1 \<le> k \<and> k \<le> n \<longrightarrow>
                exists_in w d (s @ ''('' @ str_nat k @ '')'' @ x) = Inr True) \<longrightarrow>
        (exists_in w d (s @ ''('' @ str_nat (n + 1) @ '')'' @ x) = Inr False \<longrightarrow>
           generate_unique_filename w d f = Inr (s @ ''('' @ str_nat (n + 1) @ '')'' @ x))
        \<and> (\<forall>e. exists_in w d (s @ ''('' @ str_nat (n + 1) @ '')'' @ x) = Inl e \<longrightarrow>
              generate_unique_filename w d f = Inl e))
   \<and> (\<forall>g. generate_unique_filename w d f = Inr g \<longrightarrow> exists_in w d g = Inr False)"
proof -
  have p1: "\<forall>k. str_nat k \<noteq> [] \<and> set (str_nat k) \<subseteq> set ''0123456789''
        \<and> (hd (str_nat k) = CHR ''0'' \<longrightarrow> k = 0) \<and> digits_value (str_nat k) = k"
    by (intro allI) (rule str_nat_decimal)
  have p2: "\<forall>e. exists_in w d f = Inl e \<longrightarrow> generate_unique_filename w d f = Inl e"
    by (simp add: generate_unique_filename_def)
  have p3: "exists_in w d f = Inr False \<longrightarrow> generate_unique_filename w d f = Inr f"
    by (simp add: generate_unique_filename_def)
  have p4: "\<forall>s x n. cut f s x \<and> exists_in w d f = Inr True
          \<and> (\<forall>k. 1 \<le> k \<and> k \<le> n \<longrightarrow>
                exists_in w d (s @ ''('' @ str_nat k @ '')'' @ x) = Inr True) \<longrightarrow>
        (exists_in w d (s @ ''('' @ str_nat (n + 1) @ '')'' @ x) = Inr False \<longrightarrow>
           generate_unique_filename w d f = Inr (s @ ''('' @ str_nat (n + 1) @ '')'' @ x))
        \<and> (\<forall>e. exists_in w d (s @ ''('' @ str_nat (n + 1) @ '')'' @ x) = Inl e \<longrightarrow>
              generate_unique_filename w d f = Inl e)"
  proof (intro allI impI)
    fix s x n
    assume a: "cut f s x \<and> exists_in w d f = Inr True
          \<and> (\<forall>k. 1 \<le> k \<and> k \<le> n \<longrightarrow>
                exists_in w d (s @ ''('' @ str_nat k @ '')'' @ x) = Inr True)"
    from a have g: "generate_unique_filename w d f =
       (case exists_in w d (s @ ''('' @ str_nat (n + 1) @ '')'' @ x) of
          Inl e \<Rightarrow> Inl e
        | Inr b \<Rightarrow> if \<not> b then Inr (s @ ''('' @ str_nat (n + 1) @ '')'' @ x)
                   else unique_loop w d s x (n + 2))"
      by (intro generate_after_present) blast+
    show "(exists_in w d (s @ ''('' @ str_nat (n + 1) @ '')'' @ x) = Inr False \<longrightarrow>
           generate_unique_filename w d f = Inr (s @ ''('' @ str_nat (n + 1) @ '')'' @ x))
        \<and> (\<forall>e. exists_in w d (s @ ''('' @ str_nat (n + 1) @ '')'' @ x) = Inl e \<longrightarrow>
              generate_unique_filename w d f = Inl e)"
      by (cases "exists_in w d (s @ ''('' @ str_nat (n + 1) @ '')'' @ x)")
         (simp_all add: g)
  qed
  have p5: "\<forall>g. generate_unique_filename w d f = Inr g \<longrightarrow> exists_in w d g = Inr False"
  proof (intro allI impI)
    fix g assume g: "generate_unique_filename w d f = Inr g"
    show "exists_in w d g = Inr False"
    proof (cases "exists_in w d f")
      case (Inl e)
      with g show ?thesis by (simp add: generate_unique_filename_def)
    next
      case (Inr b)
      show ?thesis
      proof (cases b)
        case True
        with g Inr have "unique_loop w d (stem f) (suffix f) 1 = Inr g"
          by (simp add: generate_unique_filename_def)
        then show ?thesis by (rule unique_loop_absent)
      next
        case False
        with g Inr show ?thesis by (simp add: generate_unique_filename_def)
      qed
    qed
  qed
  show ?thesis using p1 p2 p3 p4 p5 by (intro conjI)
qed

theorem generate_unique_filename_first_absent_witness:
  "str_nat 11 = ''11''
   \<and> exists_in crowded ''Documents'' ''notes.txt'' = Inr False
   \<and> generate_unique_filename crowded ''Documents'' ''notes.txt'' = Inr ''notes.txt''
   \<and> cut ''report.pdf'' ''report'' ''.pdf''
   \<and> exists_in crowded ''Documents'' ''report.pdf'' = Inr True
   \<and> list_all (\<lambda>k. exists_in crowded ''Documents''
          (''report'' @ ''('' @ str_nat k @ '')'' @ ''.pdf'') = Inr True) [1..<11]
   \<and> exists_in crowded ''Documents'' ''report(11).pdf'' = Inr False
   \<and> generate_unique_filename crowded ''Documents'' ''report.pdf'' = Inr ''report(11).pdf''"
proof -
  note t = generate_unique_filename_first_absent
  have n11: "str_nat 11 = ''11''" by code_simp
  have e1: "exists_in crowded ''Documents'' ''notes.txt'' = Inr False" by code_simp
  have c: "cut ''report.pdf'' ''report'' ''.pdf''" by code_simp
  have e2: "exists_in crowded ''Documents'' ''report.pdf'' = Inr True" by code_simp
  have e3: "list_all (\<lambda>k. exists_in crowded ''Documents''
          (''report'' @ ''('' @ str_nat k @ '')'' @ ''.pdf'') = Inr True) [1..<11]"
    by code_simp
  have e4: "exists_in crowded ''Documents'' ''report(11).pdf'' = Inr False" by code_simp
  have all: "\<forall>k. 1 \<le> k \<and> k \<le> 10 \<longrightarrow> exists_in crowded ''Documents''
          (''report'' @ ''('' @ str_nat k @ '')'' @ ''.pdf'') = Inr True"
    using e3 by (simp add: list_all_iff)
  have nx: "exists_in crowded ''Documents''
      (''report'' @ ''('' @ str_nat (10 + 1) @ '')'' @ ''.pdf'') = Inr False"
    using e4 n11 by simp
  have a: "generate_unique_filename crowded ''Documents'' ''notes.txt'' = Inr ''notes.txt''"
    by (rule t [of crowded "''Documents''" "''notes.txt''",
          THEN conjunct2, THEN conjunct2, THEN conjunct1, THEN mp, OF e1])
  have "generate_unique_filename crowded ''Documents'' ''report.pdf''
      = Inr (''report'' @ ''('' @ str_nat (10 + 1) @ '')'' @ ''.pdf'')"
    by (rule t [of crowded "''Documents''" "''report.pdf''",
          THEN conjunct2, THEN conjunct2, THEN conjunct2, THEN conjunct1,
          THEN spec, THEN spec, THEN spec, THEN mp, THEN conjunct1, THEN mp,
          OF conjI [OF c conjI [OF e2 all]] nx])
  then have b: "generate_unique_filename crowded ''Documents'' ''report.pdf''
      = Inr ''report(11).pdf''"
    using n11 by simp
  show ?thesis using n11 e1 a c e2 e3 e4 b by (intro conjI)
qed

section \<open>Skip rules\<close>

text \<open>
  C4, as stated: a base name equal to the reserved protected-folder name is skipped, and so
  is the engine's own script. The command-line organizer has no rule for the reserved
  name: it moves a regular file called \<open>protected_files\<close> to Others. The web pass has no
  rule for a script: it moves \<open>app.py\<close> and \<open>file_organizer.py\<close> to Code.
\<close>

theorem reserved_name_counterexample:
  "organize_file reserved_name ''protected_files'' False =
     (Inr True,
      [Created_folder ''Others'', Moved ''protected_files'' ''Others'' ''protected_files''],
      \<lparr>entries = [(''Others'', Dir [(''protected_files'', File ''x'')])], locked = []\<rparr>)
   \<and> organize_all_files (Directory own_scripts) =
       (Inr \<lparr>organized = 2, errors = 0, skipped = 7\<rparr>,
        Directory
          \<lparr>entries =
             [(''Images'', Dir []), (''Documents'', Dir []), (''Audio'', Dir []),
              (''Videos'', Dir []), (''Archives'', Dir []),
              (''Code'', Dir [(''app.py'', File ''a''), (''file_organizer.py'', File ''f'')]),
              (''Others'', Dir [])],
           locked = []\<rparr>)"
  by code_simp

text \<open>
  C4, amended. The command-line organizer checks the script name first and the directory
  second: a path whose base name is that of its own script gives false with the skip
  message, whatever the path refers to, and any other path that refers to a directory
  gives false silently; neither raises nor changes the filesystem. The web pass skips an
  entry that is a directory or whose name starts with a dot, and then an entry with the
  reserved name; it counts each in \<open>skipped\<close> and changes nothing else.
\<close>

theorem skip_rules:
  "(filename = script_name \<longrightarrow>
      organize_file w filename dry_run = (Inr False, [Skipping_script filename], w))
   \<and> (filename \<noteq> script_name \<and> isdir w filename \<longrightarrow>
      organize_file w filename dry_run = (Inr False, [], w))
   \<and> (isdir w f \<or> startswith_dot f \<or> f = PROTECTED_DIR \<longrightarrow>
      organize_all_entry f (Inr r, w) = (Inr (r\<lparr>skipped := skipped r + 1\<rparr>), w))"
  by (simp add: organize_file_def is_script_file_def organize_all_entry_def Let_def)

theorem skip_rules_witness:
  "organize_file reserved_name ''file_organizer.py'' True =
     (Inr False, [Skipping_script ''file_organizer.py''], reserved_name)
   \<and> isdir \<lparr>entries = [(''Music'', Dir [])], locked = []\<rparr> ''Music''
   \<and> organize_file \<lparr>entries = [(''Music'', Dir [])], locked = []\<rparr> ''Music'' False =
       (Inr False, [], \<lparr>entries = [(''Music'', Dir [])], locked = []\<rparr>)
   \<and> organize_all_entry ''.profile''
         (Inr \<lparr>organized = 0, errors = 0, skipped = 0\<rparr>, reserved_name) =
       (Inr \<lparr>organized = 0, errors = 0, skipped = 1\<rparr>, reserved_name)
   \<and> organize_all_entry ''protected_files''
         (Inr \<lparr>organized = 0, errors = 0, skipped = 0\<rparr>, reserved_name) =
       (Inr \<lparr>organized = 0, errors = 0, skipped = 1\<rparr>, reserved_name)"
proof -
  let ?m = "\<lparr>entries = [(''Music'', Dir [])], locked = []\<rparr>"
  let ?z = "\<lparr>organized = 0, errors = 0, skipped = 0\<rparr>"
  have s: "''file_organizer.py'' = script_name" by (simp add: script_name_def)
  have n: "''Music'' \<noteq> script_name" by (simp add: script_name_def)
  have d: "isdir ?m ''Music''" by (simp add: isdir_def)
  have h: "startswith_dot ''.profile''" by (simp add: startswith_dot_def)
  have p: "''protected_files'' = PROTECTED_DIR" by (simp add: PROTECTED_DIR_def)
  have a: "organize_file reserved_name ''file_organizer.py'' True =
     (Inr False, [Skipping_script ''file_organizer.py''], reserved_name)"
    using skip_rules [of "''file_organizer.py''" reserved_name True, THEN conjunct1] s
    by simp
  have b: "organize_file ?m ''Music'' False = (Inr False, [], ?m)"
    using skip_rules [of "''Music''" ?m False, THEN conjunct2, THEN conjunct1] n d
    by simp
  have c: "organize_all_entry ''.profile'' (Inr ?z, reserved_name) =
       (Inr \<lparr>organized = 0, errors = 0, skipped = 1\<rparr>, reserved_name)"
    using skip_rules [of _ reserved_name _ "''.profile''" ?z,
        THEN conjunct2, THEN conjunct2] h
    by simp
  have e: "organize_all_entry ''protected_files'' (Inr ?z, reserved_name) =
       (Inr \<lparr>organized = 0, errors = 0, skipped = 1\<rparr>, reserved_name)"
    using skip_rules [of _ reserved_name _ "''protected_files''" ?z,
        THEN conjunct2, THEN conjunct2] p
    by simp
  show ?thesis using a d b c e by (intro conjI)
qed

section \<open>Watch Controller: the set-up of a session\<close>




end
